theory Spec2Isabelle
  imports Main
begin

section \<open>Python values, exceptions and their messages\<close>

text \<open>
  The module \<^verbatim>\<open>wxAnyThread/__init__.py\<close> moves arguments, return values and exception
  objects between threads without looking inside them.  The values are a small universe
  of Python objects; \<open>PObj n\<close> is the \<open>wx.EvtHandler\<close> instance with identity \<open>n\<close> (a window
  or frame, the receiver of a wrapped method) and \<open>PExc c as\<close> is an instance of the
  exception class \<open>c\<close> whose \<open>args\<close> tuple is \<open>as\<close>.
\<close>

datatype exc_class =
    ValueError | TypeError | KeyError | IndexError | AttributeError
  | ZeroDivisionError | RuntimeError | KeyboardInterrupt | SystemExit
  | UserExc string

datatype pyval =
    PNone
  | PBool bool
  | PInt int
  | PStr string
  | PObj nat
  | PTuple "pyval list"
  | PExc exc_class "pyval list"

text \<open>
  A traceback is opaque to the module: it is stored, deleted and handed to
  \<open>with_traceback\<close>.  It is kept as the list of its frame descriptions.  A raised exception
  is the class and \<open>args\<close> of the instance in flight together with the traceback attached
  to it (the frames the interpreter adds while the exception propagates are not tracked).
\<close>

type_synonym traceback = "string list"

datatype raised = Raised (exc_type: exc_class) (exc_args: "pyval list") (exc_tb: traceback)

type_synonym kwargs = "(string \<times> pyval) list"

text \<open>
  A callable acts on the program state \<open>'u\<close> and either returns a value or raises; a
  method that never returns is outside the model.  What the module keeps for itself is
  outside \<open>'u\<close>: the invocation event and its \<open>EventWithData\<close> are created inside
  \<open>invoker\<close> and never passed to the method, and the methods are taken not to touch the
  marker attribute \<open>_AnyThread__connected\<close> or the bindings of their receiver.
\<close>

type_synonym 'u callable = "pyval list \<Rightarrow> kwargs \<Rightarrow> 'u \<Rightarrow> (raised + pyval) \<times> 'u"

subsection \<open>\<open>str\<close> and \<open>repr\<close>\<close>

function dec_nat :: "nat \<Rightarrow> string" where
  "dec_nat n = (if n < 10 then [''0123456789'' ! n]
                else dec_nat (n div 10) @ [''0123456789'' ! (n mod 10)])"
  by pat_completeness auto
termination
  by (relation "measure id") auto

definition dec_int :: "int \<Rightarrow> string" where
  "dec_int i = (if i < 0 then CHR ''-'' # dec_nat (nat (- i)) else dec_nat (nat i))"

definition hex2 :: "nat \<Rightarrow> string" where
  "hex2 n = [''0123456789abcdef'' ! ((n div 16) mod 16), ''0123456789abcdef'' ! (n mod 16)]"

text \<open>
  \<open>repr\<close> of a string whose characters are code points below 256: single quotes unless
  the text holds a single quote and no double quote; backslash, the chosen quote, tab,
  newline and carriage return are escaped, other unprintable code points become
  \<^verbatim>\<open>\xNN\<close>.
\<close>

definition printable :: "char \<Rightarrow> bool" where
  "printable c = (let n = (of_char c :: nat) in
     (32 \<le> n \<and> n < 127) \<or> (161 \<le> n \<and> n \<noteq> 173))"

definition escape_char :: "char \<Rightarrow> char \<Rightarrow> string" where
  "escape_char q c =
     (if c = q \<or> c = CHR 0x5C then [CHR 0x5C, c]
      else if c = CHR 0x09 then [CHR 0x5C, CHR ''t'']
      else if c = CHR 0x0A then [CHR 0x5C, CHR ''n'']
      else if c = CHR 0x0D then [CHR 0x5C, CHR ''r'']
      else if printable c then [c]
      else [CHR 0x5C, CHR ''x''] @ hex2 (of_char c))"

definition repr_str :: "string \<Rightarrow> string" where
  "repr_str s =
     (let q = (if CHR 0x27 \<in> set s \<and> CHR 0x22 \<notin> set s then CHR 0x22 else CHR 0x27)
      in q # concat (map (escape_char q) s) @ [q])"

fun join :: "string \<Rightarrow> string list \<Rightarrow> string" where
  "join sep [] = []"
| "join sep [x] = x"
| "join sep (x # y # ys) = x @ sep @ join sep (y # ys)"

fun class_name :: "exc_class \<Rightarrow> string" where
  "class_name ValueError = ''ValueError''"
| "class_name TypeError = ''TypeError''"
| "class_name KeyError = ''KeyError''"
| "class_name IndexError = ''IndexError''"
| "class_name AttributeError = ''AttributeError''"
| "class_name ZeroDivisionError = ''ZeroDivisionError''"
| "class_name RuntimeError = ''RuntimeError''"
| "class_name KeyboardInterrupt = ''KeyboardInterrupt''"
| "class_name SystemExit = ''SystemExit''"
| "class_name (UserExc name) = name"

text \<open>
  \<open>render orepr True v\<close> is \<open>repr(v)\<close> and \<open>render orepr False v\<close> is \<open>str(v)\<close>; \<open>orepr\<close> gives
  the text of an opaque object.  \<open>BaseException.__str__\<close> is the empty string for no
  argument, \<open>str\<close> of the argument for one, \<open>str\<close> of the tuple otherwise;
  \<open>KeyError.__str__\<close> takes \<open>repr\<close> of a single argument instead.
\<close>

fun render :: "(nat \<Rightarrow> string) \<Rightarrow> bool \<Rightarrow> pyval \<Rightarrow> string" where
  "render orepr r PNone = ''None''"
| "render orepr r (PBool b) = (if b then ''True'' else ''False'')"
| "render orepr r (PInt i) = dec_int i"
| "render orepr r (PStr s) = (if r then repr_str s else s)"
| "render orepr r (PObj n) = orepr n"
| "render orepr r (PTuple [v]) = ''('' @ render orepr True v @ '',)''"
| "render orepr r (PTuple vs) = ''('' @ join '', '' (map (render orepr True) vs) @ '')''"
| "render orepr True (PExc c vs) =
     class_name c @ ''('' @ join '', '' (map (render orepr True) vs) @ '')''"
| "render orepr False (PExc c []) = []"
| "render orepr False (PExc c [v]) = render orepr (c = KeyError) v"
| "render orepr False (PExc c vs) = ''('' @ join '', '' (map (render orepr True) vs) @ '')''"

definition py_str :: "(nat \<Rightarrow> string) \<Rightarrow> pyval \<Rightarrow> string" where
  "py_str orepr v = render orepr False v"

definition py_repr :: "(nat \<Rightarrow> string) \<Rightarrow> pyval \<Rightarrow> string" where
  "py_repr orepr v = render orepr True v"

text \<open>The message of a raised exception is \<open>str\<close> of the instance.\<close>

definition message :: "(nat \<Rightarrow> string) \<Rightarrow> raised \<Rightarrow> string" where
  "message orepr x = py_str orepr (PExc (exc_type x) (exc_args x))"

fun type_name :: "pyval \<Rightarrow> string" where
  "type_name PNone = ''NoneType''"
| "type_name (PBool b) = ''bool''"
| "type_name (PInt i) = ''int''"
| "type_name (PStr s) = ''str''"
| "type_name (PObj n) = ''EvtHandler''"
| "type_name (PTuple vs) = ''tuple''"
| "type_name (PExc c vs) = class_name c"

section \<open>The completion signal: class \<open>EventWithData\<close>\<close>

text \<open>
  An instance attribute can be missing: \<open>result\<close> is not created by \<open>__init__\<close>, and
  \<open>invoke\<close> deletes \<open>traceback\<close>.  Reading or deleting an \<open>Absent\<close> attribute raises
  \<open>AttributeError\<close>.
\<close>

datatype 'a attr = Absent | Present 'a

text \<open>
  \<open>flag\<close> is the internal flag of the \<open>threading.Event\<close> held in \<open>_event\<close>.  \<open>set_calls\<close>
  is instrumentation: it counts the calls of \<open>set()\<close>.  \<open>exception\<close> is Python's \<open>None\<close>
  or an exception instance (class and \<open>args\<close>); \<open>traceback\<close> is \<open>None\<close> or a traceback.
\<close>

record EventWithData =
  flag :: bool
  set_calls :: nat
  exception :: "(exc_class \<times> pyval list) option"
  traceback :: "traceback option attr"
  result :: "pyval attr"

definition EventWithData_init :: EventWithData where
  "EventWithData_init =
     \<lparr>flag = False, set_calls = 0, exception = None, traceback = Present None,
      result = Absent\<rparr>"

text \<open>\<open>wait()\<close> returns \<open>True\<close> once the flag is set; until then the thread is blocked (\<open>None\<close>).\<close>

definition wait_ewd :: "EventWithData \<Rightarrow> bool option" where
  "wait_ewd d = (if flag d then Some True else None)"

definition set_ewd :: "EventWithData \<Rightarrow> EventWithData" where
  "set_ewd d = d\<lparr>flag := True, set_calls := Suc (set_calls d)\<rparr>"

text \<open>\<open>sys.exc_info()\<close> inside an \<open>except\<close> block: the type, the instance and the traceback.\<close>

definition sys_exc_info :: "raised \<Rightarrow> exc_class \<times> (exc_class \<times> pyval list) \<times> traceback" where
  "sys_exc_info x = (exc_type x, (exc_type x, exc_args x), exc_tb x)"

definition set_exc_info ::
    "exc_class \<times> (exc_class \<times> pyval list) \<times> traceback \<Rightarrow> EventWithData \<Rightarrow> EventWithData" where
  "set_exc_info exc_info d =
     d\<lparr>exception := Some (fst (snd exc_info)), traceback := Present (Some (snd (snd exc_info)))\<rparr>"

section \<open>The shared state\<close>

text \<open>
  A \<open>MethodInvocationEvent\<close> never changes after \<open>__init__\<close>; what the caller and the owner
  thread share and mutate is its \<open>EventWithData\<close>, so the \<open>event\<close> field is a reference
  into the store \<open>heap\<close>.
\<close>

record 'u MethodInvocationEvent =
  func :: "'u callable"
  args :: "pyval list"
  kwds :: kwargs
  event :: nat

text \<open>
  \<open>user\<close> is the program state the wrapped methods act on.  For the handler object \<open>n\<close>,
  \<open>has_connected w n\<close> says that the attribute \<open>_AnyThread__connected\<close> exists and
  \<open>connects w n\<close> counts the calls \<open>Connect(-1, -1, _EVT_INVOKE_METHOD, handler)\<close> made on
  it.  \<open>pending\<close> is the toolkit's queue of posted events with their destinations, \<open>heap\<close>
  holds the \<open>EventWithData\<close> objects and \<open>next_ref\<close> is the next unused reference.
\<close>

record 'u world =
  user :: 'u
  has_connected :: "nat \<Rightarrow> bool"
  connects :: "nat \<Rightarrow> nat"
  pending :: "(nat \<times> 'u MethodInvocationEvent) list"
  heap :: "nat \<Rightarrow> EventWithData"
  next_ref :: nat

definition update_ewd :: "nat \<Rightarrow> (EventWithData \<Rightarrow> EventWithData) \<Rightarrow> 'u world \<Rightarrow> 'u world" where
  "update_ewd a g w = w\<lparr>heap := (heap w)(a := g (heap w a))\<rparr>"

datatype thread = MainThread | WorkerThread nat

definition IsMainThread :: "thread \<Rightarrow> bool" where
  "IsMainThread t = (t = MainThread)"

section \<open>Class \<open>MethodInvocationEvent\<close>\<close>

text \<open>
  \<open>__init__\<close> stores the callable and its arguments and allocates a new \<open>EventWithData\<close>.
  Every event of the model is of the type \<open>_EVT_INVOKE_METHOD\<close>, so the type set by
  \<open>SetEventType\<close> is not kept.
\<close>

definition MethodInvocationEvent_init ::
    "'u callable \<Rightarrow> pyval list \<Rightarrow> kwargs \<Rightarrow> 'u world \<Rightarrow> 'u MethodInvocationEvent \<times> 'u world" where
  "MethodInvocationEvent_init f as ks w =
     (\<lparr>func = f, args = as, kwds = ks, event = next_ref w\<rparr>,
      w\<lparr>heap := (heap w)(next_ref w := EventWithData_init), next_ref := Suc (next_ref w)\<rparr>)"

text \<open>
  A \<open>try\<close> statement with a bare \<open>except:\<close> clause: every exception of the body reaches
  the handler, and only what the handler itself raises leaves the statement.
\<close>

definition try_except ::
    "(raised + 'a) \<times> 's \<Rightarrow> (raised \<Rightarrow> 's \<Rightarrow> (raised + 'a) \<times> 's) \<Rightarrow> (raised + 'a) \<times> 's" where
  "try_except body hdl = (case body of (Inl x, s) \<Rightarrow> hdl x s | (Inr v, s) \<Rightarrow> (Inr v, s))"

text \<open>The body of the \<open>try\<close> in \<open>process\<close>: call the method, then store its result.\<close>

definition process_body :: "'u MethodInvocationEvent \<Rightarrow> 'u world \<Rightarrow> (raised + unit) \<times> 'u world" where
  "process_body e w =
     (case func e (args e) (kwds e) (user w) of
        (Inl x, u) \<Rightarrow> (Inl x, w\<lparr>user := u\<rparr>)
      | (Inr r, u) \<Rightarrow> (Inr (), update_ewd (event e) (\<lambda>d. d\<lparr>result := Present r\<rparr>) (w\<lparr>user := u\<rparr>)))"

definition process :: "'u MethodInvocationEvent \<Rightarrow> 'u world \<Rightarrow> (raised + unit) \<times> 'u world" where
  "process e w =
     (case try_except (process_body e w)
             (\<lambda>x s. (Inr (), update_ewd (event e) (set_exc_info (sys_exc_info x)) s)) of
        (Inl x, s) \<Rightarrow> (Inl x, s)
      | (Inr _, s) \<Rightarrow> (Inr (), update_ewd (event e) set_ewd s))"

text \<open>
  \<open>wx.PostEvent(dest, evt)\<close> appends the event to the toolkit's queue; a destination that
  is no event handler is refused with \<open>TypeError\<close>.
\<close>

definition enqueue :: "nat \<Rightarrow> 'u MethodInvocationEvent \<Rightarrow> 'u world \<Rightarrow> 'u world" where
  "enqueue n e w = w\<lparr>pending := pending w @ [(n, e)]\<rparr>"

definition PostEvent :: "pyval \<Rightarrow> 'u MethodInvocationEvent \<Rightarrow> 'u world \<Rightarrow> raised + 'u world" where
  "PostEvent dest e w =
     (case dest of
        PObj n \<Rightarrow> Inr (enqueue n e w)
      | _ \<Rightarrow> Inl (Raised TypeError [] []))"

text \<open>The first statement of \<open>invoke\<close>: \<open>wx.PostEvent(self.args[0], self)\<close>.\<close>

definition invoke_post :: "'u MethodInvocationEvent \<Rightarrow> 'u world \<Rightarrow> raised + 'u world" where
  "invoke_post e w =
     (case args e of
        [] \<Rightarrow> Inl (Raised IndexError [PStr ''tuple index out of range''] [])
      | dest # _ \<Rightarrow> PostEvent dest e w)"

text \<open>
  The \<open>try\<close> statement of \<open>invoke\<close>, run after \<open>wait()\<close> has returned: return \<open>result\<close> if
  the attribute exists; otherwise read \<open>exception\<close> and \<open>traceback\<close>, delete \<open>traceback\<close>
  and raise \<open>type(exception)(exception).with_traceback(traceback)\<close>.  Every class of
  \<open>exc_class\<close> inherits the constructor of \<open>BaseException\<close>, which accepts any arguments
  and stores them as \<open>args\<close>; \<open>type(None)(None)\<close> raises \<open>TypeError\<close>.
\<close>

definition no_attribute :: "string \<Rightarrow> string \<Rightarrow> raised" where
  "no_attribute tname aname =
     Raised AttributeError
       [PStr ([CHR 0x27] @ tname @ [CHR 0x27] @ '' object has no attribute '' @
              [CHR 0x27] @ aname @ [CHR 0x27])] []"

definition invoke_read :: "'u MethodInvocationEvent \<Rightarrow> 'u world \<Rightarrow> (raised + pyval) \<times> 'u world" where
  "invoke_read e w =
     (case result (heap w (event e)) of
        Present r \<Rightarrow> (Inr r, w)
      | Absent \<Rightarrow>
          (case traceback (heap w (event e)) of
             Absent \<Rightarrow> (Inl (no_attribute ''EventWithData'' ''traceback''), w)
           | Present tb \<Rightarrow>
               (let w' = update_ewd (event e) (\<lambda>d. d\<lparr>traceback := Absent\<rparr>) w in
                case exception (heap w (event e)) of
                  None \<Rightarrow> (Inl (Raised TypeError [PStr ''NoneType takes no arguments''] []), w')
                | Some (c, vs) \<Rightarrow>
                    (Inl (Raised c [PExc c vs] (case tb of None \<Rightarrow> [] | Some t \<Rightarrow> t)), w'))))"

text \<open>
  \<open>invoke\<close>: post, wait, read.  Between the post and the return of \<open>wait()\<close> the calling
  thread is suspended and the rest of the program runs; \<open>others\<close> is what it does to the
  shared state in that time.  If the flag is still unset afterwards the caller stays
  blocked: the result is \<open>None\<close>.
\<close>

definition invoke ::
    "('u world \<Rightarrow> 'u world) \<Rightarrow> 'u MethodInvocationEvent \<Rightarrow> 'u world
      \<Rightarrow> ((raised + pyval) \<times> 'u world) option" where
  "invoke others e w =
     (case invoke_post e w of
        Inl x \<Rightarrow> Some (Inl x, w)
      | Inr w1 \<Rightarrow>
          (let w2 = others w1 in
           case wait_ewd (heap w2 (event e)) of
             None \<Rightarrow> None
           | Some _ \<Rightarrow> Some (invoke_read e w2)))"

section \<open>The handler and the decorator\<close>

definition handler :: "'u MethodInvocationEvent \<Rightarrow> 'u world \<Rightarrow> (raised + unit) \<times> 'u world" where
  "handler evt w = process evt w"

text \<open>
  The three statements of the registration block of \<open>invoker\<close>, each on its own:
  \<open>hasattr(self, "_AnyThread__connected")\<close>, \<open>self.Connect(-1, -1, _EVT_INVOKE_METHOD,
  handler)\<close> and \<open>self._AnyThread__connected = True\<close>.
\<close>

definition hasattr_connected :: "'u world \<Rightarrow> nat \<Rightarrow> bool" where
  "hasattr_connected w n = has_connected w n"

definition Connect :: "nat \<Rightarrow> 'u world \<Rightarrow> 'u world" where
  "Connect n w = w\<lparr>connects := (connects w)(n := Suc (connects w n))\<rparr>"

definition set_connected :: "nat \<Rightarrow> 'u world \<Rightarrow> 'u world" where
  "set_connected n w = w\<lparr>has_connected := (has_connected w)(n := True)\<rparr>"

text \<open>
  The body of \<open>if not hasattr(...)\<close>, given the value \<open>found\<close> that \<open>hasattr\<close> returned.
  A thread switch can fall between the test and the body, so the test is a separate
  argument.
\<close>

definition connect_unless :: "bool \<Rightarrow> nat \<Rightarrow> 'u world \<Rightarrow> 'u world" where
  "connect_unless found n w = (if \<not> found then set_connected n (Connect n w) else w)"

text \<open>
  \<open>invoker\<close>, the wrapper \<open>anythread\<close> returns: \<open>t\<close> is the thread that runs it and
  \<open>others\<close> what the rest of the program does while that thread is suspended in
  \<open>wait()\<close>.  A receiver that is no event handler has neither the marker attribute nor
  a \<open>Connect\<close> method.
\<close>

definition invoker ::
    "'u callable \<Rightarrow> thread \<Rightarrow> ('u world \<Rightarrow> 'u world) \<Rightarrow> pyval list \<Rightarrow> kwargs \<Rightarrow> 'u world
      \<Rightarrow> ((raised + pyval) \<times> 'u world) option" where
  "invoker f t others as ks w =
     (if IsMainThread t then
        (case f as ks (user w) of (out, u) \<Rightarrow> Some (out, w\<lparr>user := u\<rparr>))
      else
        (case as of
           [] \<Rightarrow> Some (Inl (Raised IndexError [PStr ''tuple index out of range''] []), w)
         | self # _ \<Rightarrow>
             (case self of
                PObj n \<Rightarrow>
                  (let w1 = connect_unless (hasattr_connected w n) n w;
                       (evt, w2) = MethodInvocationEvent_init f as ks w1
                   in invoke others evt w2)
              | _ \<Rightarrow> Some (Inl (no_attribute (type_name self) ''Connect''), w))))"

definition anythread ::
    "'u callable \<Rightarrow> thread \<Rightarrow> ('u world \<Rightarrow> 'u world) \<Rightarrow> pyval list \<Rightarrow> kwargs \<Rightarrow> 'u world
      \<Rightarrow> ((raised + pyval) \<times> 'u world) option" where
  "anythread f = invoker f"

section \<open>The owner thread's event loop\<close>

text \<open>
  The toolkit is not part of the module.  Its event loop takes the pending events in the
  order they were posted and, for each, runs the handler bound on the destination; an
  event whose destination has no binding is dropped.  An exception that leaves a handler
  is reported by the toolkit and the loop goes on.
\<close>

definition deliver :: "nat \<times> 'u MethodInvocationEvent \<Rightarrow> 'u world \<Rightarrow> 'u world" where
  "deliver p w = (if 0 < connects w (fst p) then snd (handler (snd p) w) else w)"

fun run_pending :: "(nat \<times> 'u MethodInvocationEvent) list \<Rightarrow> 'u world \<Rightarrow> 'u world" where
  "run_pending [] w = w"
| "run_pending (p # ps) w = run_pending ps (deliver p w)"

definition owner_loop :: "'u world \<Rightarrow> 'u world" where
  "owner_loop w = run_pending (pending w) (w\<lparr>pending := []\<rparr>)"

text \<open>
  The states the module itself produces: an object that carries the marker has a
  binding, a pending event goes to an object with a binding, and every reference held by
  a pending event has been allocated.
\<close>

definition wf_world :: "'u world \<Rightarrow> bool" where
  "wf_world w =
     ((\<forall>n. has_connected w n \<longrightarrow> 0 < connects w n) \<and>
      list_all (\<lambda>p. 0 < connects w (fst p) \<and> event (snd p) < next_ref w) (pending w))"

definition initial_world :: "'u \<Rightarrow> 'u world" where
  "initial_world u =
     \<lparr>user = u, has_connected = (\<lambda>n. False), connects = (\<lambda>n. 0), pending = [],
      heap = (\<lambda>a. EventWithData_init), next_ref = 0\<rparr>"

section \<open>Schedules of several calls\<close>

text \<open>
  Calls made one after the other from worker threads, each run to completion (the owner
  thread's loop runs while the caller waits) before the next one starts.  A call that
  stays blocked blocks the sequence.
\<close>

fun sequential_calls ::
    "('u callable \<times> pyval list \<times> kwargs) list \<Rightarrow> 'u world \<Rightarrow> 'u world option" where
  "sequential_calls [] w = Some w"
| "sequential_calls ((f, as, ks) # cs) w =
     (case invoker f (WorkerThread 0) owner_loop as ks w of
        None \<Rightarrow> None
      | Some (r, w') \<Rightarrow> sequential_calls cs w')"

text \<open>
  Two worker threads make their first calls on the same receiver \<open>n\<close> at the same time.
  Both evaluate \<open>hasattr\<close> (line 119) before either reaches \<open>Connect\<close>; then each runs
  lines 120 and 121, constructs its event and posts it; the owner thread's loop handles
  both events; each caller returns from \<open>wait()\<close> and reads its outcome.
\<close>

definition racing_first_calls ::
    "'u callable \<Rightarrow> pyval list \<Rightarrow> 'u callable \<Rightarrow> pyval list \<Rightarrow> nat \<Rightarrow> 'u world
      \<Rightarrow> ((raised + pyval) \<times> (raised + pyval) \<times> 'u world) option" where
  "racing_first_calls f1 as1 f2 as2 n w =
     (let found1 = hasattr_connected w n;
          found2 = hasattr_connected w n;
          w1 = connect_unless found1 n w;
          w2 = connect_unless found2 n w1;
          (e1, w3) = MethodInvocationEvent_init f1 (PObj n # as1) [] w2;
          w4 = enqueue n e1 w3;
          (e2, w5) = MethodInvocationEvent_init f2 (PObj n # as2) [] w4;
          w6 = enqueue n e2 w5;
          w7 = owner_loop w6
      in case (wait_ewd (heap w7 (event e1)), wait_ewd (heap w7 (event e2))) of
           (Some _, Some _) \<Rightarrow>
             (let (r1, w8) = invoke_read e1 w7;
                  (r2, w9) = invoke_read e2 w8
              in Some (r1, r2, w9))
         | _ \<Rightarrow> None)"


section \<open>Example methods\<close>

text \<open>
  The methods of the scenarios: \<open>add(self, x, y)\<close> returns \<open>x + y\<close>, \<open>fail(self)\<close> raises
  \<open>ValueError("bad")\<close> and \<open>lookup(self)\<close> raises \<open>KeyError('k')\<close>, as a failed dictionary
  access does.  The program state counts the calls executed.
\<close>

definition add_method :: "nat callable" where
  "add_method as ks u =
     (case as of
        [self, PInt x, PInt y] \<Rightarrow> (Inr (PInt (x + y)), Suc u)
      | _ \<Rightarrow> (Inl (Raised TypeError [] [''add'']), Suc u))"

definition fail_method :: "nat callable" where
  "fail_method as ks u = (Inl (Raised ValueError [PStr ''bad''] [''process'', ''fail'']), Suc u)"

definition lookup_method :: "nat callable" where
  "lookup_method as ks u = (Inl (Raised KeyError [PStr ''k''] [''process'', ''lookup'']), Suc u)"

section \<open>Basic facts\<close>

lemma heap_update_ewd [simp]:
  "heap (update_ewd a g w) = (heap w)(a := g (heap w a))"
  by (simp add: update_ewd_def)

lemma update_ewd_frame [simp]:
  "user (update_ewd a g w) = user w"
  "connects (update_ewd a g w) = connects w"
  "has_connected (update_ewd a g w) = has_connected w"
  "pending (update_ewd a g w) = pending w"
  "next_ref (update_ewd a g w) = next_ref w"
  by (simp_all add: update_ewd_def)

lemma process_returns:
  "func e (args e) (kwds e) (user w) = (Inr v, u) \<Longrightarrow>
   process e w = (Inr (), update_ewd (event e) set_ewd
     (update_ewd (event e) (\<lambda>d. d\<lparr>result := Present v\<rparr>) (w\<lparr>user := u\<rparr>)))"
  by (simp add: process_def process_body_def try_except_def)

lemma process_raises:
  "func e (args e) (kwds e) (user w) = (Inl x, u) \<Longrightarrow>
   process e w = (Inr (), update_ewd (event e) set_ewd
     (update_ewd (event e) (set_exc_info (sys_exc_info x)) (w\<lparr>user := u\<rparr>)))"
  by (simp add: process_def process_body_def try_except_def)

lemma process_cases:
  obtains (returns) v u where "func e (args e) (kwds e) (user w) = (Inr v, u)"
  | (raises) x u where "func e (args e) (kwds e) (user w) = (Inl x, u)"
  by (cases "func e (args e) (kwds e) (user w)"; cases "fst (func e (args e) (kwds e) (user w))")
     auto

lemma process_frame [simp]:
  "connects (snd (process e w)) = connects w"
  "has_connected (snd (process e w)) = has_connected w"
  "pending (snd (process e w)) = pending w"
  "next_ref (snd (process e w)) = next_ref w"
  "user (snd (process e w)) = snd (func e (args e) (kwds e) (user w))"
  by (cases e w rule: process_cases; simp add: process_returns process_raises)+

lemma process_heap_other:
  "a \<noteq> event e \<Longrightarrow> heap (snd (process e w)) a = heap w a"
  by (cases e w rule: process_cases; simp add: process_returns process_raises)

lemma invoke_read_result:
  "result (heap w (event e)) = Present v \<Longrightarrow> invoke_read e w = (Inr v, w)"
  by (simp add: invoke_read_def)

lemma invoke_read_failure:
  "result (heap w (event e)) = Absent \<Longrightarrow> traceback (heap w (event e)) = Present tb \<Longrightarrow>
   exception (heap w (event e)) = Some (c, vs) \<Longrightarrow>
   invoke_read e w =
     (Inl (Raised c [PExc c vs] (case tb of None \<Rightarrow> [] | Some t \<Rightarrow> t)),
      update_ewd (event e) (\<lambda>d. d\<lparr>traceback := Absent\<rparr>) w)"
  by (simp add: invoke_read_def)

lemma invoke_read_frame [simp]:
  "user (snd (invoke_read e w)) = user w"
  "connects (snd (invoke_read e w)) = connects w"
  "has_connected (snd (invoke_read e w)) = has_connected w"
  "pending (snd (invoke_read e w)) = pending w"
  "next_ref (snd (invoke_read e w)) = next_ref w"
  by (simp_all add: invoke_read_def Let_def split: attr.splits option.splits)


lemma deliver_frame [simp]:
  "connects (deliver p w) = connects w"
  "has_connected (deliver p w) = has_connected w"
  "pending (deliver p w) = pending w"
  "next_ref (deliver p w) = next_ref w"
  by (simp_all add: deliver_def handler_def)

lemma deliver_heap_other:
  "a \<noteq> event (snd p) \<Longrightarrow> heap (deliver p w) a = heap w a"
  by (simp add: deliver_def handler_def process_heap_other)

lemma deliver_user:
  "user (deliver p w) =
     (if 0 < connects w (fst p) then snd (func (snd p) (args (snd p)) (kwds (snd p)) (user w))
      else user w)"
  by (simp add: deliver_def handler_def)

lemma run_pending_frame [simp]:
  "connects (run_pending ps w) = connects w"
  "has_connected (run_pending ps w) = has_connected w"
  "pending (run_pending ps w) = pending w"
  "next_ref (run_pending ps w) = next_ref w"
  by (induction ps arbitrary: w; simp)+

lemma run_pending_heap_other:
  "list_all (\<lambda>p. event (snd p) \<noteq> a) ps \<Longrightarrow> heap (run_pending ps w) a = heap w a"
  by (induction ps arbitrary: w) (simp_all add: deliver_heap_other)

lemma run_pending_user_cong:
  "user w = user w' \<Longrightarrow>
   list_all (\<lambda>p. (0 < connects w (fst p)) = (0 < connects w' (fst p))) ps \<Longrightarrow>
   user (run_pending ps w) = user (run_pending ps w')"
proof (induction ps arbitrary: w w')
  case Nil
  then show ?case by simp
next
  case (Cons p ps)
  have "user (deliver p w) = user (deliver p w')"
    using Cons.prems by (simp add: deliver_user)
  moreover have "list_all (\<lambda>q. (0 < connects (deliver p w) (fst q)) =
      (0 < connects (deliver p w') (fst q))) ps"
    using Cons.prems by simp
  ultimately show ?case
    using Cons.IH by simp
qed

lemma run_pending_snoc:
  "run_pending (ps @ [p]) w = deliver p (run_pending ps w)"
  by (induction ps arbitrary: w) simp_all

lemma connect_unless_frame [simp]:
  "user (connect_unless b n w) = user w"
  "pending (connect_unless b n w) = pending w"
  "heap (connect_unless b n w) = heap w"
  "next_ref (connect_unless b n w) = next_ref w"
  by (simp_all add: connect_unless_def set_connected_def Connect_def)

lemma connect_unless_connected:
  "wf_world w \<Longrightarrow> 0 < connects (connect_unless (hasattr_connected w n) n w) n"
  by (simp add: connect_unless_def set_connected_def Connect_def hasattr_connected_def wf_world_def)

lemma connect_unless_mono:
  "0 < connects w m \<Longrightarrow> 0 < connects (connect_unless b n w) m"
  by (simp add: connect_unless_def set_connected_def Connect_def)

lemma connect_unless_marker:
  "wf_world w \<Longrightarrow> has_connected (connect_unless (hasattr_connected w n) n w) m \<Longrightarrow>
   0 < connects (connect_unless (hasattr_connected w n) n w) m"
  by (auto simp: connect_unless_def set_connected_def Connect_def hasattr_connected_def
      wf_world_def split: if_splits)

text \<open>
  The worker path of \<open>invoker\<close> constructs an event and hands it to \<open>invoke\<close>, and
  \<open>invoke\<close> returns only when the flag of that event's \<open>EventWithData\<close> is set: as long
  as the rest of the program leaves the flag unset, the caller stays blocked.
\<close>

lemma invoker_constructs_event:
  "invoker f (WorkerThread k) others (PObj n # as) ks w =
     (let (evt, w2) = MethodInvocationEvent_init f (PObj n # as) ks
                        (connect_unless (hasattr_connected w n) n w)
      in invoke others evt w2)"
  by (simp add: invoker_def IsMainThread_def)

lemma invoke_blocked:
  "invoke_post e w = Inr w1 \<Longrightarrow> \<not> flag (heap (others w1) (event e)) \<Longrightarrow>
   invoke others e w = None"
  by (simp add: invoke_def wait_ewd_def)


lemma worker_call_blocked:
  fixes f :: "'u callable"
  assumes "\<And>s. \<not> flag (heap s (next_ref w)) \<Longrightarrow> \<not> flag (heap (others s) (next_ref w))"
  shows "invoker f (WorkerThread k) others (PObj n # as) ks w = None"
proof -
  let ?w1 = "connect_unless (hasattr_connected w n) n w"
  let ?i = "MethodInvocationEvent_init f (PObj n # as) ks ?w1"
  have post: "invoke_post (fst ?i) (snd ?i) = Inr (enqueue n (fst ?i) (snd ?i))"
    by (simp add: invoke_post_def PostEvent_def MethodInvocationEvent_init_def)
  have "\<not> flag (heap (enqueue n (fst ?i) (snd ?i)) (next_ref w))"
    by (simp add: enqueue_def MethodInvocationEvent_init_def EventWithData_init_def)
  then have "\<not> flag (heap (others (enqueue n (fst ?i) (snd ?i))) (event (fst ?i)))"
    using assms by (simp add: MethodInvocationEvent_init_def)
  from invoke_blocked [where others = others, OF post this] show ?thesis
    by (simp add: invoker_constructs_event split_beta)
qed

section \<open>The cross-thread path, with the owner thread's loop running\<close>

text \<open>
  In a well-formed state a call from a worker thread on the receiver \<open>n\<close> does not stay
  blocked: it returns what \<open>invoke\<close> reads after \<open>process\<close> has run on a fresh
  \<open>EventWithData\<close>, in the program state the owner thread reached by handling the events
  that were pending before.
\<close>

lemma cross_thread_call:
  fixes f :: "'u callable" and n :: nat and as :: "pyval list" and ks :: kwargs
    and w :: "'u world"
  assumes wf: "wf_world w"
  defines "evt \<equiv> \<lparr>func = f, args = PObj n # as, kwds = ks, event = next_ref w\<rparr>"
    and "w1 \<equiv> connect_unless (hasattr_connected w n) n w"
  shows "\<exists>w4. user w4 = user (owner_loop w) \<and> heap w4 (next_ref w) = EventWithData_init \<and>
           connects w4 = connects w1 \<and> has_connected w4 = has_connected w1 \<and>
           pending w4 = [] \<and> next_ref w4 = Suc (next_ref w) \<and>
           invoker f (WorkerThread k) owner_loop (PObj n # as) ks w =
             Some (invoke_read evt (snd (process evt w4)))"
proof -
  define w2 where
    "w2 = w1\<lparr>heap := (heap w1)(next_ref w1 := EventWithData_init), next_ref := Suc (next_ref w1)\<rparr>"
  define w3 where "w3 = w2\<lparr>pending := []\<rparr>"
  define w4 where "w4 = run_pending (pending w) w3"
  have w1_conn: "0 < connects w1 n"
    using wf by (simp add: w1_def connect_unless_connected)
  have init: "MethodInvocationEvent_init f (PObj n # as) ks w1 = (evt, w2)"
    by (simp add: MethodInvocationEvent_init_def evt_def w2_def w1_def)
  have post: "invoke_post evt w2 = Inr (w2\<lparr>pending := pending w @ [(n, evt)]\<rparr>)"
    by (simp add: invoke_post_def PostEvent_def enqueue_def evt_def w2_def w1_def)
  have loop: "owner_loop (w2\<lparr>pending := pending w @ [(n, evt)]\<rparr>) = deliver (n, evt) w4"
    by (simp add: owner_loop_def run_pending_snoc w4_def w3_def)
  have frame4: "connects w4 = connects w1" "has_connected w4 = has_connected w1"
    "pending w4 = []" "next_ref w4 = Suc (next_ref w)"
    by (simp_all add: w4_def w3_def w2_def w1_def)
  have conn4: "0 < connects w4 n"
    using w1_conn by (simp add: frame4)
  have pend: "list_all (\<lambda>p. 0 < connects w (fst p) \<and> event (snd p) < next_ref w) (pending w)"
    using wf by (simp add: wf_world_def)
  have "list_all (\<lambda>p. event (snd p) \<noteq> next_ref w) (pending w)"
    using pend by (auto simp: list_all_iff)
  then have heap4: "heap w4 (next_ref w) = EventWithData_init"
    by (simp add: w4_def run_pending_heap_other w3_def w2_def w1_def)
  have "list_all (\<lambda>p. (0 < connects w3 (fst p)) = (0 < connects (w\<lparr>pending := []\<rparr>) (fst p)))
          (pending w)"
    using pend by (auto simp: list_all_iff w3_def w2_def w1_def connect_unless_mono)
  then have user4: "user w4 = user (owner_loop w)"
    unfolding w4_def owner_loop_def
    by (intro run_pending_user_cong) (simp_all add: w3_def w2_def w1_def)
  have flag: "flag (heap (snd (process evt w4)) (event evt))"
    by (cases evt w4 rule: process_cases) (simp_all add: process_returns process_raises set_ewd_def)
  have "invoker f (WorkerThread k) owner_loop (PObj n # as) ks w =
          Some (invoke_read evt (snd (process evt w4)))"
    using conn4 flag
    by (simp add: invoker_def IsMainThread_def w1_def [symmetric] init invoke_def post loop
        deliver_def handler_def wait_ewd_def)
  with user4 heap4 frame4 show ?thesis by blast
qed

lemma cross_thread_call_raises:
  fixes f :: "'u callable"
  assumes "wf_world w"
    and "f (PObj n # as) ks (user (owner_loop w)) = (Inl (Raised c vs tb), u)"
  shows "\<exists>w'. anythread f (WorkerThread k) owner_loop (PObj n # as) ks w =
                Some (Inl (Raised c [PExc c vs] tb), w') \<and> user w' = u"
proof -
  let ?evt = "\<lparr>func = f, args = PObj n # as, kwds = ks, event = next_ref w\<rparr>"
  from cross_thread_call [OF assms(1), where f = f and n = n and as = as and ks = ks and k = k]
  obtain w4 where u4: "user w4 = user (owner_loop w)"
    and h4: "heap w4 (next_ref w) = EventWithData_init"
    and call: "invoker f (WorkerThread k) owner_loop (PObj n # as) ks w =
                 Some (invoke_read ?evt (snd (process ?evt w4)))"
    by blast
  have run: "func ?evt (args ?evt) (kwds ?evt) (user w4) = (Inl (Raised c vs tb), u)"
    using assms(2) u4 by simp
  show ?thesis
    by (simp add: anythread_def call process_raises [OF run] h4 invoke_read_failure set_ewd_def
        set_exc_info_def sys_exc_info_def EventWithData_init_def)
qed

lemma wf_initial_world: "wf_world (initial_world u)"
  by (simp add: wf_world_def initial_world_def)

lemma owner_loop_initial_world: "owner_loop (initial_world u) = initial_world u"
  by (simp add: owner_loop_def initial_world_def)

section \<open>The claims\<close>

text \<open>
  Claim C1.  A method that returns \<open>v\<close>, called through the wrapper from a thread other
  than the owner.  The event is posted and the caller waits: while the owner thread handles
  no event the call stays blocked in \<open>wait()\<close>.  When the owner thread's loop runs, it
  runs \<open>process\<close>, which stores \<open>v\<close> and calls \<open>set()\<close> once; the caller comes back from
  \<open>wait()\<close> and the call returns exactly \<open>v\<close>.  The program state afterwards is the one
  the method left; the method runs in the program state the owner thread has reached after
  the events posted before.
\<close>

theorem cross_thread_call_returns:
  fixes f :: "'u callable"
  assumes "wf_world w"
    and "f (PObj n # as) ks (user (owner_loop w)) = (Inr v, u)"
  shows "anythread f (WorkerThread k) (\<lambda>s. s) (PObj n # as) ks w = None \<and>
         (\<exists>w'. anythread f (WorkerThread k) owner_loop (PObj n # as) ks w = Some (Inr v, w') \<and>
               user w' = u \<and>
               heap w' (next_ref w) =
                 \<lparr>flag = True, set_calls = 1, exception = None, traceback = Present None,
                  result = Present v\<rparr>)"
proof -
  let ?evt = "\<lparr>func = f, args = PObj n # as, kwds = ks, event = next_ref w\<rparr>"
  have idle: "anythread f (WorkerThread k) (\<lambda>s. s) (PObj n # as) ks w = None"
    unfolding anythread_def by (rule worker_call_blocked) simp
  from cross_thread_call [OF assms(1), where f = f and n = n and as = as and ks = ks and k = k]
  obtain w4 where u4: "user w4 = user (owner_loop w)"
    and h4: "heap w4 (next_ref w) = EventWithData_init"
    and call: "invoker f (WorkerThread k) owner_loop (PObj n # as) ks w =
                 Some (invoke_read ?evt (snd (process ?evt w4)))"
    by blast
  have run: "func ?evt (args ?evt) (kwds ?evt) (user w4) = (Inr v, u)"
    using assms(2) u4 by simp
  have "\<exists>w'. anythread f (WorkerThread k) owner_loop (PObj n # as) ks w = Some (Inr v, w') \<and>
          user w' = u \<and>
          heap w' (next_ref w) =
            \<lparr>flag = True, set_calls = 1, exception = None, traceback = Present None,
             result = Present v\<rparr>"
    by (simp add: anythread_def call process_returns [OF run] invoke_read_result set_ewd_def h4
        EventWithData_init_def)
  with idle show ?thesis by blast
qed

theorem cross_thread_call_returns_witness:
  "wf_world (initial_world (0::nat)) \<and>
   anythread add_method (WorkerThread 1) (\<lambda>s. s) [PObj 0, PInt 2, PInt 3] [] (initial_world 0)
     = None \<and>
   map_option fst (anythread add_method (WorkerThread 1) owner_loop [PObj 0, PInt 2, PInt 3] []
     (initial_world 0)) = Some (Inr (PInt 5))"
proof -
  have wf: "wf_world (initial_world (0::nat))"
    by (rule wf_initial_world)
  have run: "add_method (PObj 0 # [PInt 2, PInt 3]) [] (user (owner_loop (initial_world (0::nat))))
               = (Inr (PInt 5), Suc 0)"
    by (simp add: add_method_def owner_loop_def initial_world_def)
  from cross_thread_call_returns [where f = add_method and k = 1 and n = 0
      and as = "[PInt 2, PInt 3]" and ks = "[]" and w = "initial_world 0", OF wf run] wf
  show ?thesis
    by auto
qed

text \<open>
  Claim C3.  On the owner thread the wrapper is the method itself: the same return value
  or the same exception, the same effect on the program state, and nothing else changes
  (no binding, no marker, no event posted, no \<open>EventWithData\<close> allocated).
\<close>

theorem owner_thread_passthrough:
  "anythread f MainThread others as ks w =
     Some (fst (f as ks (user w)), w\<lparr>user := snd (f as ks (user w))\<rparr>)"
  by (simp add: anythread_def invoker_def IsMainThread_def split: prod.splits)

text \<open>
  Claim C4.  Whatever the method does, no exception leaves \<open>process\<close>, and \<open>process\<close> calls
  \<open>set()\<close> on the event's \<open>EventWithData\<close> exactly once, so that \<open>wait()\<close> returns.
\<close>

theorem process_always_signals:
  "fst (process e w) = Inr () \<and>
   set_calls (heap (snd (process e w)) (event e)) = Suc (set_calls (heap w (event e))) \<and>
   wait_ewd (heap (snd (process e w)) (event e)) = Some True"
  by (cases e w rule: process_cases)
     (simp_all add: process_returns process_raises set_ewd_def set_exc_info_def wait_ewd_def)

text \<open>
  Claim C6.  Reading the outcome prefers the result: when the \<open>result\<close> attribute exists it
  is returned, whatever \<open>exception\<close> and \<open>traceback\<close> hold, and nothing is deleted.  Only
  when there is no \<open>result\<close> attribute is the stored failure read, and then the call
  raises.
\<close>

theorem read_prefers_result:
  "(case result (heap w (event e)) of
      Present v \<Rightarrow> invoke_read e w = (Inr v, w)
    | Absent \<Rightarrow>
        (\<exists>x. fst (invoke_read e w) = Inl x) \<and>
        (case (traceback (heap w (event e)), exception (heap w (event e))) of
           (Present tb, Some (c, vs)) \<Rightarrow>
              fst (invoke_read e w) =
                Inl (Raised c [PExc c vs] (case tb of None \<Rightarrow> [] | Some t \<Rightarrow> t))
         | _ \<Rightarrow> True))"
  by (simp add: invoke_read_def Let_def split: attr.splits option.splits prod.splits)

text \<open>
  Claim C9.  Called from a worker thread with no positional argument, the wrapper raises
  \<open>IndexError\<close> (from \<open>args[0]\<close>) and the shared state is unchanged: no \<open>Connect\<close>, no
  marker, no event constructed, nothing posted.
\<close>

theorem empty_args_IndexError:
  "anythread f (WorkerThread k) others [] ks w =
     Some (Inl (Raised IndexError [PStr ''tuple index out of range''] []), w)"
  by (simp add: anythread_def invoker_def IsMainThread_def)

text \<open>
  Claim C5.  \<open>process\<close> run once on an event whose \<open>EventWithData\<close> is as \<open>__init__\<close> left
  it records one outcome: on success \<open>result\<close> holds the value while \<open>exception\<close> and
  \<open>traceback\<close> are still \<open>None\<close>; on failure \<open>exception\<close> and \<open>traceback\<close> hold the
  exception and its traceback and there is no \<open>result\<close> attribute.
\<close>

theorem process_sets_one_outcome:
  assumes "heap w (event e) = EventWithData_init"
  shows "(case fst (func e (args e) (kwds e) (user w)) of
            Inr v \<Rightarrow>
              result (heap (snd (process e w)) (event e)) = Present v \<and>
              exception (heap (snd (process e w)) (event e)) = None \<and>
              traceback (heap (snd (process e w)) (event e)) = Present None
          | Inl x \<Rightarrow>
              result (heap (snd (process e w)) (event e)) = Absent \<and>
              exception (heap (snd (process e w)) (event e)) = Some (exc_type x, exc_args x) \<and>
              traceback (heap (snd (process e w)) (event e)) = Present (Some (exc_tb x)))"
  using assms
  by (cases e w rule: process_cases)
     (simp_all add: process_returns process_raises set_ewd_def set_exc_info_def sys_exc_info_def
        EventWithData_init_def)

lemma MethodInvocationEvent_init_fresh:
  "heap (snd (MethodInvocationEvent_init f as ks w))
     (event (fst (MethodInvocationEvent_init f as ks w))) = EventWithData_init"
  by (simp add: MethodInvocationEvent_init_def)

lemma MethodInvocationEvent_init_fields [simp]:
  "func (fst (MethodInvocationEvent_init f as ks w)) = f"
  "args (fst (MethodInvocationEvent_init f as ks w)) = as"
  "kwds (fst (MethodInvocationEvent_init f as ks w)) = ks"
  "event (fst (MethodInvocationEvent_init f as ks w)) = next_ref w"
  "user (snd (MethodInvocationEvent_init f as ks w)) = user w"
  "next_ref (snd (MethodInvocationEvent_init f as ks w)) = Suc (next_ref w)"
  by (simp_all add: MethodInvocationEvent_init_def)

theorem process_sets_one_outcome_witness:
  "(let (e, w) = MethodInvocationEvent_init add_method [PObj 0, PInt 2, PInt 3] [] (initial_world 0);
        d = heap (snd (process e w)) (event e)
    in result d = Present (PInt 5) \<and> exception d = None \<and> traceback d = Present None) \<and>
   (let (e, w) = MethodInvocationEvent_init fail_method [PObj 0] [] (initial_world 0);
        d = heap (snd (process e w)) (event e)
    in result d = Absent \<and> exception d = Some (ValueError, [PStr ''bad'']) \<and>
       traceback d = Present (Some [''process'', ''fail'']))"
proof -
  let ?i1 = "MethodInvocationEvent_init add_method [PObj 0, PInt 2, PInt 3] [] (initial_world 0)"
  let ?i2 = "MethodInvocationEvent_init fail_method [PObj 0] [] (initial_world 0)"
  from process_sets_one_outcome [OF MethodInvocationEvent_init_fresh
        [of add_method "[PObj 0, PInt 2, PInt 3]" "[]" "initial_world 0"]]
    process_sets_one_outcome [OF MethodInvocationEvent_init_fresh
        [of fail_method "[PObj 0]" "[]" "initial_world 0"]]
  show ?thesis
    by (simp add: add_method_def fail_method_def split_beta Let_def)
qed

text \<open>
  Claim C10.  Consuming a failure deletes the \<open>traceback\<close> attribute and leaves
  \<open>exception\<close> set, then raises; reading the same failed outcome again raises
  \<open>AttributeError\<close> for the missing \<open>traceback\<close>.
\<close>

theorem failure_is_read_once:
  assumes "result (heap w (event e)) = Absent"
    and "traceback (heap w (event e)) = Present tb"
    and "exception (heap w (event e)) = Some (c, vs)"
  shows "fst (invoke_read e w) =
           Inl (Raised c [PExc c vs] (case tb of None \<Rightarrow> [] | Some t \<Rightarrow> t)) \<and>
         traceback (heap (snd (invoke_read e w)) (event e)) = Absent \<and>
         exception (heap (snd (invoke_read e w)) (event e)) = Some (c, vs) \<and>
         invoke_read e (snd (invoke_read e w)) =
           (Inl (no_attribute ''EventWithData'' ''traceback''), snd (invoke_read e w))"
  using assms by (simp add: invoke_read_failure) (simp add: invoke_read_def)

theorem failure_is_read_once_witness:
  "(let (e, w0) = MethodInvocationEvent_init fail_method [PObj 0] [] (initial_world 0);
        w = snd (process e w0)
    in fst (invoke_read e w) =
         Inl (Raised ValueError [PExc ValueError [PStr ''bad'']] [''process'', ''fail'']) \<and>
       traceback (heap (snd (invoke_read e w)) (event e)) = Absent \<and>
       exception (heap (snd (invoke_read e w)) (event e)) = Some (ValueError, [PStr ''bad'']) \<and>
       fst (invoke_read e (snd (invoke_read e w))) =
         Inl (no_attribute ''EventWithData'' ''traceback''))"
proof -
  let ?i = "MethodInvocationEvent_init fail_method [PObj 0] [] (initial_world 0)"
  let ?e = "fst ?i"
  let ?w = "snd (process ?e (snd ?i))"
  have run: "func ?e (args ?e) (kwds ?e) (user (snd ?i)) =
               (Inl (Raised ValueError [PStr ''bad''] [''process'', ''fail'']), Suc 0)"
    by (simp add: fail_method_def initial_world_def)
  have stored: "result (heap ?w (event ?e)) = Absent"
    "traceback (heap ?w (event ?e)) = Present (Some [''process'', ''fail''])"
    "exception (heap ?w (event ?e)) = Some (ValueError, [PStr ''bad''])"
    using process_raises [OF run]
    by (simp_all add: MethodInvocationEvent_init_fresh MethodInvocationEvent_init_def
        EventWithData_init_def set_ewd_def set_exc_info_def sys_exc_info_def)
  from failure_is_read_once [OF stored] show ?thesis
    by (simp add: split_beta Let_def)
qed

text \<open>
  References only grow: no step of the module reuses the reference of an
  \<open>EventWithData\<close> that exists.
\<close>

lemma owner_loop_next_ref [simp]: "next_ref (owner_loop w) = next_ref w"
  by (simp add: owner_loop_def)

lemma invoke_next_ref:
  assumes "\<And>s. next_ref s \<le> next_ref (others s)"
    and "invoke others e w = Some (r, w')"
  shows "next_ref w \<le> next_ref w'"
proof (cases "invoke_post e w")
  case (Inl x)
  with assms(2) show ?thesis by (simp add: invoke_def)
next
  case (Inr w1)
  then have "next_ref w1 = next_ref w"
    by (auto simp: invoke_post_def PostEvent_def enqueue_def split: list.splits pyval.splits)
  moreover have "w' = snd (invoke_read e (others w1))"
    using assms(2) Inr by (auto simp: invoke_def Let_def split: option.splits)
  ultimately show ?thesis
    using assms(1) [of w1] by simp
qed

lemma invoker_next_ref:
  assumes "\<And>s. next_ref s \<le> next_ref (others s)"
    and "invoker f t others as ks w = Some (r, w')"
  shows "next_ref w \<le> next_ref w'"
proof (cases "IsMainThread t")
  case True
  with assms(2) show ?thesis
    by (auto simp: invoker_def split: prod.splits)
next
  case False
  show ?thesis
  proof (cases as)
    case Nil
    with False assms(2) show ?thesis by (simp add: invoker_def)
  next
    case (Cons self rest)
    show ?thesis
    proof (cases "\<exists>n. self = PObj n")
      case True
      then obtain n where self: "self = PObj n" by blast
      let ?w1 = "connect_unless (hasattr_connected w n) n w"
      let ?i = "MethodInvocationEvent_init f as ks ?w1"
      have "invoke others (fst ?i) (snd ?i) = Some (r, w')"
        using assms(2) False Cons self by (simp add: invoker_def split_beta Let_def)
      from invoke_next_ref [OF assms(1) this] show ?thesis by simp
    next
      case no_handler: False
      with False Cons assms(2) show ?thesis
        by (cases self) (simp_all add: invoker_def)
    qed
  qed
qed









text \<open>
  What the re-raise does to the exception.  \<open>invoke\<close> raises a new instance of the same
  class whose only argument is the stored exception.  Its message is \<open>str\<close> of the
  stored exception for every class with the inherited \<open>__str__\<close>; for \<open>KeyError\<close> it is
  \<open>repr\<close> of the stored exception.
\<close>

lemma reraised_message:
  "message orepr (Raised c [PExc c vs] tb) =
     (if c = KeyError then py_repr orepr (PExc c vs) else message orepr (Raised c vs tb'))"
  by (simp add: message_def py_str_def py_repr_def)

lemma cross_thread_call_raises_same_message:
  fixes f :: "'u callable"
  assumes "wf_world w"
    and "f (PObj n # as) ks (user (owner_loop w)) = (Inl (Raised c vs tb), u)"
    and "c \<noteq> KeyError"
  shows "\<exists>x w'. anythread f (WorkerThread k) owner_loop (PObj n # as) ks w = Some (Inl x, w') \<and>
           exc_type x = c \<and> exc_tb x = tb \<and>
           message orepr x = message orepr (Raised c vs tb)"
proof -
  from cross_thread_call_raises [where f = f and k = k, OF assms(1,2)]
  obtain w' where "anythread f (WorkerThread k) owner_loop (PObj n # as) ks w =
      Some (Inl (Raised c [PExc c vs] tb), w')"
    by blast
  moreover have "message orepr (Raised c [PExc c vs] tb) = message orepr (Raised c vs tb)"
    using assms(3) by (simp add: reraised_message [where tb' = tb])
  ultimately show ?thesis by simp
qed

text \<open>
  Claim C2.  The claim fails on the code for \<open>KeyError\<close>.  The method \<open>lookup\<close> raises
  \<open>KeyError('k')\<close>, whose message is the three characters \<^verbatim>\<open>'k'\<close>.  The call from a worker
  thread raises \<open>KeyError(KeyError('k'))\<close>: the class is the same, the message is
  \<^verbatim>\<open>KeyError('k')\<close>.
\<close>

theorem KeyError_message_changes:
  "fst (lookup_method [PObj 0] [] 0) = Inl (Raised KeyError [PStr ''k''] [''process'', ''lookup'']) \<and>
   map_option fst (anythread lookup_method (WorkerThread 1) owner_loop [PObj 0] [] (initial_world 0))
     = Some (Inl (Raised KeyError [PExc KeyError [PStr ''k'']] [''process'', ''lookup''])) \<and>
   message orepr (Raised KeyError [PStr ''k''] [''process'', ''lookup'']) =
     [CHR 0x27, CHR ''k'', CHR 0x27] \<and>
   message orepr (Raised KeyError [PExc KeyError [PStr ''k'']] [''process'', ''lookup'']) =
     ''KeyError('k')''"
proof -
  have run: "lookup_method (PObj 0 # []) [] (user (owner_loop (initial_world (0::nat)))) =
      (Inl (Raised KeyError [PStr ''k''] [''process'', ''lookup'']), Suc 0)"
    by (simp add: lookup_method_def owner_loop_def initial_world_def)
  from cross_thread_call_raises [where f = lookup_method and k = 1 and as = "[]", OF wf_initial_world run]
  have "map_option fst
      (anythread lookup_method (WorkerThread 1) owner_loop [PObj 0] [] (initial_world 0))
     = Some (Inl (Raised KeyError [PExc KeyError [PStr ''k'']] [''process'', ''lookup'']))"
    by auto
  moreover have "fst (lookup_method [PObj 0] [] 0) =
      Inl (Raised KeyError [PStr ''k''] [''process'', ''lookup''])"
    by (simp add: lookup_method_def)
  moreover have "message orepr (Raised KeyError [PStr ''k''] [''process'', ''lookup'']) =
      [CHR 0x27, CHR ''k'', CHR 0x27]"
    by (simp add: message_def py_str_def repr_str_def escape_char_def printable_def Let_def)
  moreover have "message orepr (Raised KeyError [PExc KeyError [PStr ''k'']] [''process'', ''lookup''])
      = ''KeyError('k')''"
    by (simp add: message_def py_str_def repr_str_def escape_char_def printable_def Let_def)
  ultimately show ?thesis by blast
qed

text \<open>
  The scenario of the specification: \<open>fail\<close> raises \<open>ValueError("bad")\<close>, and the call from a
  worker thread raises a \<open>ValueError\<close> whose message is \<open>bad\<close>.
\<close>

lemma ValueError_scenario:
  "\<exists>x w'. anythread fail_method (WorkerThread 1) owner_loop [PObj 0] [] (initial_world 0) =
            Some (Inl x, w') \<and> exc_type x = ValueError \<and> message orepr x = ''bad''"
proof -
  have run: "fail_method (PObj 0 # []) [] (user (owner_loop (initial_world (0::nat)))) =
      (Inl (Raised ValueError [PStr ''bad''] [''process'', ''fail'']), Suc 0)"
    by (simp add: fail_method_def owner_loop_def initial_world_def)
  from cross_thread_call_raises_same_message [where f = fail_method and k = 1 and as = "[]"
      and orepr = orepr, OF wf_initial_world run]
  show ?thesis
    by (auto simp: message_def py_str_def)
qed

text \<open>
  Registration when calls do not overlap.  A call from a worker thread in a well-formed
  state returns, leaves the state well-formed and the receiver marked, and calls
  \<open>Connect\<close> on the receiver only if the marker was missing.
\<close>

lemma invoker_registers:
  fixes f :: "'u callable"
  assumes wf: "wf_world w"
  shows "\<exists>r w'. invoker f (WorkerThread k) owner_loop (PObj n # as) ks w = Some (r, w') \<and>
           wf_world w' \<and> has_connected w' n \<and>
           connects w' n = (if has_connected w n then connects w n else Suc (connects w n))"
proof -
  let ?evt = "\<lparr>func = f, args = PObj n # as, kwds = ks, event = next_ref w\<rparr>"
  let ?w1 = "connect_unless (hasattr_connected w n) n w"
  from cross_thread_call [OF wf, where f = f and n = n and as = as and ks = ks and k = k]
  obtain w4 where c4: "connects w4 = connects ?w1" and m4: "has_connected w4 = has_connected ?w1"
    and p4: "pending w4 = []"
    and call: "invoker f (WorkerThread k) owner_loop (PObj n # as) ks w =
                 Some (invoke_read ?evt (snd (process ?evt w4)))"
    by blast
  let ?w' = "snd (invoke_read ?evt (snd (process ?evt w4)))"
  have "wf_world ?w'"
    using connect_unless_marker [OF wf, of n] by (simp add: wf_world_def c4 m4 p4)
  moreover have "has_connected ?w' n"
    by (simp add: m4 connect_unless_def set_connected_def Connect_def hasattr_connected_def)
  moreover have "connects ?w' n = (if has_connected w n then connects w n else Suc (connects w n))"
    by (simp add: c4 connect_unless_def set_connected_def Connect_def hasattr_connected_def)
  ultimately show ?thesis
    using call by (metis prod.collapse)
qed

lemma sequential_calls_marked:
  assumes "wf_world w" and "has_connected w n"
    and "list_all (\<lambda>c. \<exists>rest. fst (snd c) = PObj n # rest) cs"
  shows "\<exists>w'. sequential_calls cs w = Some w' \<and> connects w' n = connects w n"
  using assms
proof (induction cs arbitrary: w)
  case Nil
  then show ?case by simp
next
  case (Cons c cs)
  obtain f as ks where c: "c = (f, as, ks)"
    by (cases c) auto
  from Cons.prems(3) c obtain rest where as: "as = PObj n # rest"
    by auto
  from invoker_registers [OF Cons.prems(1), of f 0 n rest ks]
  obtain r w1 where call: "invoker f (WorkerThread 0) owner_loop as ks w = Some (r, w1)"
    and wf1: "wf_world w1" and m1: "has_connected w1 n" and c1: "connects w1 n = connects w n"
    using Cons.prems(2) as by auto
  from Cons.IH [OF wf1 m1] Cons.prems(3)
  obtain w' where "sequential_calls cs w1 = Some w'" "connects w' n = connects w1 n"
    by auto
  then show ?case
    using call c c1 by simp
qed

text \<open>
  Any number of calls (at least one) on a receiver that was never wired, one after the
  other: \<open>Connect\<close> is called on it exactly once.
\<close>

lemma sequential_calls_connect_once:
  assumes "wf_world w" and "\<not> has_connected w n" and "cs \<noteq> []"
    and "list_all (\<lambda>c. \<exists>rest. fst (snd c) = PObj n # rest) cs"
  shows "\<exists>w'. sequential_calls cs w = Some w' \<and> connects w' n = Suc (connects w n)"
proof (cases cs)
  case Nil
  with assms(3) show ?thesis by simp
next
  case (Cons c cs')
  obtain f as ks where c: "c = (f, as, ks)"
    by (cases c) auto
  from assms(4) Cons c obtain rest where as: "as = PObj n # rest"
    by auto
  from invoker_registers [OF assms(1), of f 0 n rest ks]
  obtain r w1 where call: "invoker f (WorkerThread 0) owner_loop as ks w = Some (r, w1)"
    and wf1: "wf_world w1" and m1: "has_connected w1 n"
    and c1: "connects w1 n = Suc (connects w n)"
    using assms(2) as by auto
  from sequential_calls_marked [OF wf1 m1, of cs'] assms(4) Cons
  obtain w' where "sequential_calls cs' w1 = Some w'" "connects w' n = connects w1 n"
    by auto
  then show ?thesis
    using call c c1 Cons by simp
qed

text \<open>
  Two threads whose tests both ran before either body: each finds the marker missing,
  and \<open>Connect\<close> runs twice.
\<close>

lemma stale_test_connects_twice:
  "\<not> has_connected w n \<Longrightarrow>
   connects (connect_unless (hasattr_connected w n) n
               (connect_unless (hasattr_connected w n) n w)) n = Suc (Suc (connects w n))"
  by (simp add: connect_unless_def hasattr_connected_def set_connected_def Connect_def)

text \<open>
  Claim C7.  The claim fails on the code when two first calls overlap.  Two worker
  threads call \<open>add\<close> on the receiver \<open>0\<close>, which was never wired, and both evaluate
  \<open>hasattr\<close> before either calls \<open>Connect\<close>.  Both calls return their sums, and \<open>Connect\<close>
  has been called twice on the receiver.
\<close>

theorem racing_first_calls_connect_twice:
  "connects (initial_world (0::nat)) 0 = 0 \<and>
   map_option (\<lambda>(r1, r2, w'). (r1, r2, connects w' 0, has_connected w' 0))
     (racing_first_calls add_method [PInt 2, PInt 3] add_method [PInt 10, PInt 20] 0
        (initial_world 0))
     = Some (Inr (PInt 5), Inr (PInt 30), 2, True)"
  by (simp add: racing_first_calls_def initial_world_def hasattr_connected_def connect_unless_def
      Connect_def set_connected_def MethodInvocationEvent_init_def enqueue_def owner_loop_def
      deliver_def handler_def process_def process_body_def try_except_def update_ewd_def
      set_ewd_def wait_ewd_def invoke_read_def add_method_def EventWithData_init_def)

text \<open>
  Overlapping calls keep their own outcomes: in the schedule of \<open>racing_first_calls\<close>,
  when the first method raises and the second returns, the first caller gets the
  exception and the second its value.
\<close>

lemma overlapping_calls_keep_outcomes:
  fixes f1 f2 :: "'u callable"
  assumes "wf_world w" and "pending w = []"
    and "f1 (PObj n # as1) [] (user w) = (Inl (Raised c vs tb), u1)"
    and "f2 (PObj n # as2) [] u1 = (Inr v2, u2)"
  shows "\<exists>w'. racing_first_calls f1 as1 f2 as2 n w =
           Some (Inl (Raised c [PExc c vs] tb), Inr v2, w') \<and> user w' = u2"
  using assms
  by (simp add: racing_first_calls_def hasattr_connected_def connect_unless_def
      Connect_def set_connected_def MethodInvocationEvent_init_def enqueue_def owner_loop_def
      deliver_def handler_def process_def process_body_def try_except_def update_ewd_def
      set_ewd_def wait_ewd_def invoke_read_def EventWithData_init_def set_exc_info_def
      sys_exc_info_def wf_world_def)

end
